theory Spec2Isabelle
  imports Main "HOL-Library.AList"
begin

text \<open>
  A model of \<open>Source/Git/wb_git_project.py\<close> (the classes \<open>GitProject\<close>,
  \<open>WbGitFileState\<close>, \<open>GitCommitLogNode\<close> and \<open>GitProjectTreeNode\<close>) and of
  \<open>WbDiffView.setUnifiedDiffText\<close> in \<open>Source/Common/wb_diff_view.py\<close>.  Objects
  are records and datatypes, a method takes the object and returns it as the call leaves
  it, an exception is a value of \<open>py_error\<close>, and what the wrapped version-control
  library answers or does is data or a parameter.  The definitions come first, the
  properties after them.
\<close>

section \<open>Python values used by the model\<close>

text \<open>
  The exceptions the modelled code can raise.  \<open>KeyError\<close>, \<open>IndexError\<close>,
  \<open>AssertionError\<close> and \<open>AttributeError\<close> come from the Python of the
  repository itself (a missing dictionary key or set element, \<open>line[0]\<close> on an empty
  string, a failed \<open>assert\<close>, a method call on \<open>None\<close>); \<open>LibraryError\<close>
  stands for whatever the wrapped version-control library or the file system raises.
\<close>

datatype py_error = KeyError | IndexError | AssertionError | AttributeError | LibraryError

text \<open>
  A Python \<open>dict\<close> is an association list in insertion order with distinct keys:
  \<open>d[k] = v\<close> is \<^const>\<open>AList.update\<close> (overwrite in place, or append),
  \<open>k in d\<close> and \<open>d[k]\<close> go through \<^const>\<open>map_of\<close>, and iterating the
  dictionary walks the list.
\<close>

type_synonym ('k, 'v) dict = "('k \<times> 'v) list"

definition dict_in :: "'k \<Rightarrow> ('k, 'v) dict \<Rightarrow> bool" where
  "dict_in k d = (map_of d k \<noteq> None)"

definition dict_get :: "('k, 'v) dict \<Rightarrow> 'k \<Rightarrow> py_error + 'v" where
  "dict_get d k = (case map_of d k of None \<Rightarrow> Inl KeyError | Some v \<Rightarrow> Inr v)"

definition dict_keys :: "('k, 'v) dict \<Rightarrow> 'k list" where
  "dict_keys d = map fst d"


section \<open>The objects handed over by the wrapped library\<close>

text \<open>
  A blob as the library's diff reports it: file mode and content hash.
\<close>

record blob =
  blob_mode :: nat
  blob_hexsha :: string

text \<open>
  One entry of a diff.  The wrapper reads the two paths, the two blobs and the three
  flags.  A side on which the path does not exist has no blob.
\<close>

record diff =
  a_path :: string
  b_path :: string
  a_blob :: "blob option"
  b_blob :: "blob option"
  new_file :: bool
  deleted_file :: bool
  renamed :: bool

text \<open>An entry of the index; the wrapper only reads its path.\<close>

record index_entry =
  entry_path :: string
  entry_hexsha :: string


section \<open>\<open>WbGitFileState\<close>\<close>

text \<open>
  The fields of the class, public ones first and the name-mangled private ones after
  them.  The back reference \<open>repo\<close> is only read by \<open>getTextLinesWorking\<close> and is
  left out.  \<open>__staged_abbrev\<close> and \<open>__unstaged_abbrev\<close> start as \<open>None\<close>.
\<close>

record WbGitFileState =
  index_entry :: "index_entry option"
  unstaged_diff :: "diff option"
  staged_diff :: "diff option"
  untracked :: bool
  state_calculated :: bool
  staged_is_modified :: bool
  unstaged_is_modified :: bool
  staged_abbrev :: "string option"
  unstaged_abbrev :: "string option"
  head_blob :: "blob option"
  staged_blob :: "blob option"

definition WbGitFileState_init :: "index_entry option \<Rightarrow> WbGitFileState" where
  "WbGitFileState_init entry =
     \<lparr> index_entry = entry, unstaged_diff = None, staged_diff = None, untracked = False,
       state_calculated = False, staged_is_modified = False, unstaged_is_modified = False,
       staged_abbrev = None, unstaged_abbrev = None, head_blob = None, staged_blob = None \<rparr>"

definition addStaged :: "diff \<Rightarrow> WbGitFileState \<Rightarrow> WbGitFileState" where
  "addStaged d s = s\<lparr> state_calculated := False, staged_diff := Some d \<rparr>"

definition addUnstaged :: "diff \<Rightarrow> WbGitFileState \<Rightarrow> WbGitFileState" where
  "addUnstaged d s = s\<lparr> state_calculated := False, unstaged_diff := Some d \<rparr>"

definition setUntracked :: "WbGitFileState \<Rightarrow> WbGitFileState" where
  "setUntracked s = s\<lparr> untracked := True \<rparr>"

text \<open>
  \<open>__calculateState\<close>, first half: the staged diff.  The staged diff is the diff of
  the index (side a) against HEAD (side b), which is why \<open>deleted_file\<close> gives
  \<open>'A'\<close>, \<open>new_file\<close> gives \<open>'D'\<close>, and the HEAD blob is \<open>b_blob\<close>.
\<close>

definition calculateStaged :: "WbGitFileState \<Rightarrow> WbGitFileState" where
  "calculateStaged s =
     (case staged_diff s of
        None \<Rightarrow> s\<lparr> staged_abbrev := Some '''' \<rparr>
      | Some d \<Rightarrow>
          if renamed d then s\<lparr> staged_abbrev := Some ''R'' \<rparr>
          else if deleted_file d then s\<lparr> staged_abbrev := Some ''A'' \<rparr>
          else if new_file d then s\<lparr> staged_abbrev := Some ''D'' \<rparr>
          else s\<lparr> staged_abbrev := Some ''M'', staged_is_modified := True,
                  head_blob := b_blob d, staged_blob := a_blob d \<rparr>)"

text \<open>\<open>__calculateState\<close>, second half: the unstaged diff (index against working copy).\<close>

definition calculateUnstaged :: "WbGitFileState \<Rightarrow> WbGitFileState" where
  "calculateUnstaged s =
     (case unstaged_diff s of
        None \<Rightarrow> s\<lparr> unstaged_abbrev := Some '''' \<rparr>
      | Some d \<Rightarrow>
          if deleted_file d then s\<lparr> unstaged_abbrev := Some ''D'' \<rparr>
          else if new_file d then s\<lparr> unstaged_abbrev := Some ''A'' \<rparr>
          else s\<lparr> unstaged_abbrev := Some ''M'', unstaged_is_modified := True,
                  head_blob := (if head_blob s = None then a_blob d else head_blob s) \<rparr>)"

definition calculateState :: "WbGitFileState \<Rightarrow> WbGitFileState" where
  "calculateState s =
     (if state_calculated s then s
      else (calculateUnstaged (calculateStaged s))\<lparr> state_calculated := True \<rparr>)"

text \<open>
  Every accessor first runs \<open>__calculateState\<close> and so returns its value together with
  the object as the call leaves it.
\<close>

definition getStagedAbbreviatedStatus :: "WbGitFileState \<Rightarrow> string option \<times> WbGitFileState" where
  "getStagedAbbreviatedStatus s = (let s' = calculateState s in (staged_abbrev s', s'))"

definition getUnstagedAbbreviatedStatus :: "WbGitFileState \<Rightarrow> string option \<times> WbGitFileState" where
  "getUnstagedAbbreviatedStatus s = (let s' = calculateState s in (unstaged_abbrev s', s'))"






definition isUntracked :: "WbGitFileState \<Rightarrow> bool" where
  "isUntracked s = untracked s"




section \<open>\<open>GitProjectTreeNode\<close> and the path helpers\<close>

text \<open>\<open>s.split(c)\<close>: cut at every separator; an empty string gives one empty piece.\<close>

function split :: "char \<Rightarrow> string \<Rightarrow> string list" where
  "split c s =
     (case dropWhile (\<lambda>x. x \<noteq> c) s of
        [] \<Rightarrow> [s]
      | _ # rest \<Rightarrow> takeWhile (\<lambda>x. x \<noteq> c) s # split c rest)"
  by pat_completeness auto
termination
proof (relation "measure (\<lambda>(c, s). length s)")
  show "wf (measure (\<lambda>(c, s). length s))" by simp
next
  fix c :: char and s :: string and x rest
  assume "dropWhile (\<lambda>x. x \<noteq> c) s = x # rest"
  then have "length rest < length (dropWhile (\<lambda>x. x \<noteq> c) s)" by simp
  also have "\<dots> \<le> length s" by (rule length_dropWhile_le)
  finally show "((c, rest), (c, s)) \<in> measure (\<lambda>(c, s). length s)" by simp
qed

text \<open>\<open>sep.join(parts)\<close>.\<close>

fun join :: "string \<Rightarrow> string list \<Rightarrow> string" where
  "join sep [] = []"
| "join sep [x] = x"
| "join sep (x # y # ys) = x @ sep @ join sep (y # ys)"

text \<open>
  A node of the project tree.  \<open>relativePath\<close> holds the string the node's
  \<open>pathlib.Path\<close> was built from.  The back reference \<open>project\<close> is passed to
  \<open>getStatusEntry\<close> as an argument instead.
\<close>

datatype GitProjectTreeNode =
  GitProjectTreeNode (name: string) (relativePath: string)
    (all_folders: "(string, GitProjectTreeNode) dict") (all_files: "(string, string) dict")

definition GitProjectTreeNode_init :: "string \<Rightarrow> string \<Rightarrow> GitProjectTreeNode" where
  "GitProjectTreeNode_init nm p = GitProjectTreeNode nm p [] []"

definition set_folder :: "string \<Rightarrow> GitProjectTreeNode \<Rightarrow> GitProjectTreeNode \<Rightarrow> GitProjectTreeNode" where
  "set_folder k child node =
     GitProjectTreeNode (name node) (relativePath node)
       (AList.update k child (all_folders node)) (all_files node)"

definition set_file :: "string \<Rightarrow> string \<Rightarrow> GitProjectTreeNode \<Rightarrow> GitProjectTreeNode" where
  "set_file k v node =
     GitProjectTreeNode (name node) (relativePath node)
       (all_folders node) (AList.update k v (all_files node))"

text \<open>
  The loop of \<open>__updateTree\<close> from index \<open>depth\<close> on, standing at \<open>node\<close>.  The
  source walks down by reference and mutates the nodes in place; here the changed child
  is written back under its name, which leaves an existing key at its position and
  appends a new one.
\<close>

function updateTree_loop ::
  "string list \<Rightarrow> string \<Rightarrow> nat \<Rightarrow> GitProjectTreeNode \<Rightarrow> GitProjectTreeNode" where
  "updateTree_loop path_parts path depth node =
     (if depth < length path_parts - 1 then
        (case map_of (all_folders node) (path_parts ! depth) of
           Some child \<Rightarrow>
             set_folder (path_parts ! depth)
               (updateTree_loop path_parts path (Suc depth) child) node
         | None \<Rightarrow>
             set_folder (path_parts ! depth)
               (updateTree_loop path_parts path (Suc depth)
                  (GitProjectTreeNode_init (path_parts ! depth)
                     (join ''/'' (take (depth + 1) path_parts)))) node)
      else set_file (last path_parts) path node)"
  by pat_completeness auto
termination
  by (relation "measure (\<lambda>(path_parts, path, depth, node). length path_parts - 1 - depth)") auto


section \<open>The repository as the library reports it\<close>

text \<open>
  What the wrapper reads from the repository handle: the HEAD commit, the entries of the
  index, the diff of the index against HEAD, the diff of the index against the working
  copy, and the untracked files.
\<close>

record repo =
  head_commit :: string
  entries :: "index_entry list"
  head_vs_index :: "diff list"
  index_vs_working :: "diff list"
  untracked_files :: "string list"




section \<open>\<open>GitProject\<close>\<close>

record prefs_project =
  prefs_name :: string
  prefs_path :: string

text \<open>
  \<open>index\<close> is \<open>None\<close> until the first status calculation and afterwards the
  \<open>IndexFile\<close> read at that moment, kept as its entries.
\<close>

record GitProject =
  prefs_project :: prefs_project
  repo :: repo
  index :: "index_entry list option"
  tree :: GitProjectTreeNode
  all_file_state :: "(string, WbGitFileState) dict"
  dirty_index :: bool
  stale_index :: bool
  num_staged_files :: nat

definition GitProject_init :: "prefs_project \<Rightarrow> repo \<Rightarrow> GitProject" where
  "GitProject_init prefs r =
     \<lparr> prefs_project = prefs, repo = r, index = None,
       tree = GitProjectTreeNode_init (prefs_name prefs) ''.'',
       all_file_state = [], dirty_index = False, stale_index = False,
       num_staged_files = 0 \<rparr>"

text \<open>
  The second to fourth loop of \<open>__calculateStatus\<close> share one shape: create the
  entry when the key is new, then change the object stored under the key.
\<close>

definition ensure_state :: "string \<Rightarrow> (string, WbGitFileState) dict \<Rightarrow> (string, WbGitFileState) dict" where
  "ensure_state k st =
     (if \<not> dict_in k st then AList.update k (WbGitFileState_init None) st else st)"

definition calculateStatus :: "GitProject \<Rightarrow> GitProject" where
  "calculateStatus p =
     (let r = repo p;
          st0 = fold (\<lambda>entry st. AList.update (entry_path entry) (WbGitFileState_init (Some entry)) st)
                  (entries r) [];
          (n, st1) = fold (\<lambda>d (n, st).
                       (n + 1, AList.map_entry (b_path d) (addStaged d) (ensure_state (b_path d) st)))
                  (head_vs_index r) (0, st0);
          st2 = fold (\<lambda>d st. AList.map_entry (a_path d) (addUnstaged d) (ensure_state (a_path d) st))
                  (index_vs_working r) st1;
          st3 = fold (\<lambda>path st. AList.map_entry path setUntracked (ensure_state path st))
                  (untracked_files r) st2
      in p\<lparr> index := Some (entries r), all_file_state := st3, num_staged_files := n \<rparr>)"

definition updateTree :: "string \<Rightarrow> GitProject \<Rightarrow> GitProject" where
  "updateTree path p = p\<lparr> tree := updateTree_loop (split CHR ''/'' path) path 0 (tree p) \<rparr>"

definition updateState :: "GitProject \<Rightarrow> py_error + GitProject" where
  "updateState p =
     (if dirty_index p then Inl AssertionError
      else
        (let p1 = p\<lparr> tree := GitProjectTreeNode_init (prefs_name (prefs_project p)) ''.'' \<rparr>;
             p2 = calculateStatus p1
         in Inr (fold updateTree (dict_keys (all_file_state p2)) p2)))"


definition getFileState :: "GitProject \<Rightarrow> string \<Rightarrow> py_error + WbGitFileState" where
  "getFileState p filename = dict_get (all_file_state p) filename"

definition getStatusEntry :: "GitProject \<Rightarrow> GitProjectTreeNode \<Rightarrow> string \<Rightarrow> py_error + WbGitFileState" where
  "getStatusEntry project node nm =
     (case dict_get (all_files node) nm of
        Inl e \<Rightarrow> Inl e
      | Inr path \<Rightarrow>
          if dict_in path (all_file_state project) then dict_get (all_file_state project) path
          else Inr (WbGitFileState_init None))"







section \<open>Commits, trees and the commit log\<close>

text \<open>
  The objects of a commit's tree.  Iterating a tree gives its direct entries: blobs,
  submodule entries (of type \<open>'commit'\<close>) and subtrees; every entry carries its path
  from the root of the repository.
\<close>

datatype git_object =
    Blob (path: string) (hexsha: string)
  | Submodule (path: string) (hexsha: string)
  | Tree (path: string) (hexsha: string) (items: "git_object list")

fun obj_type :: "git_object \<Rightarrow> string" where
  "obj_type (Blob p h) = ''blob''"
| "obj_type (Submodule p h) = ''commit''"
| "obj_type (Tree p h its) = ''tree''"

text \<open>\<open>tree.trees\<close>: the direct entries that are trees.\<close>

definition trees :: "git_object list \<Rightarrow> git_object list" where
  "trees its = filter (\<lambda>i. obj_type i = ''tree'') its"

text \<open>
  \<open>__treeToDict\<close>.  It is only ever called on a tree (a commit's tree, or a member of
  \<open>tree.trees\<close>), so there is no equation for the other objects.
\<close>

function (sequential) treeToDict :: "git_object \<Rightarrow> (string, string) dict \<Rightarrow> (string, string) dict" where
  "treeToDict (Tree p h its) all_entries =
     fold treeToDict (trees its)
       (fold (\<lambda>blob d. if obj_type blob = ''blob''
                        then AList.update (path blob) (hexsha blob) d else d)
          its all_entries)"
  by pat_completeness auto
termination
proof (relation "measure (\<lambda>(t, d). size t)")
  show "wf (measure (\<lambda>(t, d). size t))" by simp
next
  fix p h :: string and its :: "git_object list" and all_entries x :: "(string, string) dict"
    and child :: git_object
  assume "child \<in> set (trees its)"
  then have "child \<in> set its" by (simp add: trees_def)
  then have "size child \<le> size_list size its" by (rule size_list_estimation') simp
  then show "((child, x), (Tree p h its, all_entries)) \<in> measure (\<lambda>(t, d). size t)" by simp
qed

datatype commit =
  Commit (commit_hexsha: string) (commit_tree: git_object) (parents: "commit list")

record GitCommitLogNode =
  commit :: commit
  all_changes :: "(string \<times> string \<times> string) list"

definition GitCommitLogNode_init :: "commit \<Rightarrow> GitCommitLogNode" where
  "GitCommitLogNode_init c = \<lparr> commit = c, all_changes = [] \<rparr>"

definition commitTree :: "GitCommitLogNode \<Rightarrow> git_object" where
  "commitTree node = commit_tree (commit node)"

definition commitPreviousTree :: "GitCommitLogNode \<Rightarrow> git_object option" where
  "commitPreviousTree node =
     (if length (parents (commit node)) = 0 then None
      else Some (commit_tree (parents (commit node) ! 0)))"

definition commitFileChanges :: "GitCommitLogNode \<Rightarrow> (string \<times> string \<times> string) list" where
  "commitFileChanges node = all_changes node"

text \<open>
  A Python \<open>set\<close> is a list without repetition.  The order in which Python iterates a
  set is not fixed by the language; the list fixes one, and the theorems about sets
  speak of membership only.
\<close>

type_synonym 'a pyset = "'a list"

definition set_minus :: "'a pyset \<Rightarrow> 'a pyset \<Rightarrow> 'a pyset" where
  "set_minus a b = filter (\<lambda>x. x \<notin> set b) a"

definition set_add :: "'a \<Rightarrow> 'a pyset \<Rightarrow> 'a pyset" where
  "set_add x s = (if x \<in> set s then s else s @ [x])"

text \<open>\<open>s.remove(x)\<close> raises \<open>KeyError\<close> when \<open>x\<close> is not a member.\<close>

definition set_remove :: "'a \<Rightarrow> 'a pyset \<Rightarrow> py_error + 'a pyset" where
  "set_remove x s = (if x \<in> set s then Inr (removeAll x s) else Inl KeyError)"

definition addChanges ::
  "string pyset \<Rightarrow> string pyset \<Rightarrow> (string \<times> string) list \<Rightarrow> string pyset
     \<Rightarrow> GitCommitLogNode \<Rightarrow> GitCommitLogNode" where
  "addChanges all_added all_deleted all_renamed all_modified node =
     node\<lparr> all_changes := all_changes node
             @ map (\<lambda>nm. (''A'', nm, '''')) all_added
             @ map (\<lambda>nm. (''D'', nm, '''')) all_deleted
             @ map (\<lambda>(nm, old_name). (''R'', nm, old_name)) all_renamed
             @ map (\<lambda>nm. (''M'', nm, '''')) all_modified \<rparr>"

text \<open>
  The loop \<open>for name in list(all_added)\<close>: the names still to visit, the two
  dictionaries it reads, and the three collections it changes.
\<close>

fun rename_loop ::
  "string list \<Rightarrow> (string, string) dict \<Rightarrow> (string, string) dict
     \<Rightarrow> string pyset \<times> string pyset \<times> (string \<times> string) list
     \<Rightarrow> py_error + string pyset \<times> string pyset \<times> (string \<times> string) list" where
  "rename_loop [] all_new all_old_id_to_name acc = Inr acc"
| "rename_loop (nm # names) all_new all_old_id_to_name (all_added, all_deleted, all_renamed) =
     (case dict_get all_new nm of
        Inl e \<Rightarrow> Inl e
      | Inr blob_id \<Rightarrow>
          if dict_in blob_id all_old_id_to_name then
            (case set_remove nm all_added of
               Inl e \<Rightarrow> Inl e
             | Inr all_added' \<Rightarrow>
                 (case dict_get all_old_id_to_name blob_id of
                    Inl e \<Rightarrow> Inl e
                  | Inr old_name \<Rightarrow>
                      (case set_remove old_name all_deleted of
                         Inl e \<Rightarrow> Inl e
                       | Inr all_deleted' \<Rightarrow>
                           rename_loop names all_new all_old_id_to_name
                             (all_added', all_deleted', all_renamed @ [(nm, old_name)]))))
          else rename_loop names all_new all_old_id_to_name (all_added, all_deleted, all_renamed))"

text \<open>The body of the loop of \<open>__addCommitChangeInformation\<close>, for one node.\<close>

definition addCommitChangeInformation_body :: "GitCommitLogNode \<Rightarrow> py_error + GitCommitLogNode" where
  "addCommitChangeInformation_body node =
     (let new_tree = commitTree node;
          old_tree = commitPreviousTree node;
          all_new = treeToDict new_tree [];
          new_set = dict_keys all_new
      in case old_tree of
           None \<Rightarrow> Inr (addChanges new_set [] [] [] node)
         | Some old_tree \<Rightarrow>
             (let all_old = treeToDict old_tree [];
                  old_set = dict_keys all_old;
                  all_added = set_minus new_set old_set;
                  all_deleted = set_minus old_set new_set
              in case (if length all_added > 0
                       then rename_loop all_added all_new
                              (fold (\<lambda>(nm, blob_id) m. AList.update blob_id nm m) all_old [])
                              (all_added, all_deleted, [])
                       else Inr (all_added, all_deleted, [])) of
                   Inl e \<Rightarrow> Inl e
                 | Inr (all_added, all_deleted, all_renamed) \<Rightarrow>
                     (let all_modified =
                        fold (\<lambda>key m. if dict_in key all_old \<and> map_of all_new key \<noteq> map_of all_old key
                                       then set_add key m else m)
                          (dict_keys all_new) []
                      in Inr (addChanges all_added all_deleted all_renamed all_modified node))))"

text \<open>The loop over the nodes; an exception in one body ends the whole call.\<close>

fun addCommitChangeInformation :: "GitCommitLogNode list \<Rightarrow> py_error + GitCommitLogNode list" where
  "addCommitChangeInformation [] = Inr []"
| "addCommitChangeInformation (node # nodes) =
     (case addCommitChangeInformation_body node of
        Inl e \<Rightarrow> Inl e
      | Inr node' \<Rightarrow>
          (case addCommitChangeInformation nodes of
             Inl e \<Rightarrow> Inl e
           | Inr nodes' \<Rightarrow> Inr (node' # nodes')))"

text \<open>
  The keyword arguments of the two log commands.  An argument is a Python value, and
  \<open>None\<close> is one of them.  Both commands build \<open>kwds\<close> with the same three
  \<open>if\<close> statements.
\<close>

datatype py_value = PyNone | PyInt int | PyStr string

definition commitLogKwds :: "py_value \<Rightarrow> py_value \<Rightarrow> py_value \<Rightarrow> (string, py_value) dict" where
  "commitLogKwds limit since until =
     (let kwds0 = [];
          kwds1 = (if limit \<noteq> PyNone then AList.update ''max_count'' limit kwds0 else kwds0);
          kwds2 = (if since \<noteq> PyNone then AList.update ''since'' since kwds1 else kwds1);
          kwds3 = (if since \<noteq> PyNone then AList.update ''until'' until kwds2 else kwds2)
      in kwds3)"

text \<open>
  \<open>repo.iter_commits\<close> belongs to the library and is a parameter: from the optional
  path argument and the keyword arguments to the commits it yields.
\<close>

type_synonym iter_commits = "string option \<Rightarrow> (string, py_value) dict \<Rightarrow> commit list"

definition cmdCommitLogForRepository ::
  "iter_commits \<Rightarrow> py_value \<Rightarrow> py_value \<Rightarrow> py_value \<Rightarrow> py_error + GitCommitLogNode list" where
  "cmdCommitLogForRepository iter limit since until =
     addCommitChangeInformation
       (map GitCommitLogNode_init (iter None (commitLogKwds limit since until)))"

definition cmdCommitLogForFile ::
  "iter_commits \<Rightarrow> string \<Rightarrow> py_value \<Rightarrow> py_value \<Rightarrow> py_value \<Rightarrow> py_error + GitCommitLogNode list" where
  "cmdCommitLogForFile iter filename limit since until =
     addCommitChangeInformation
       (map GitCommitLogNode_init (iter (Some filename) (commitLogKwds limit since until)))"


section \<open>\<open>WbDiffView\<close>\<close>

definition style_header :: nat where "style_header = 0"

definition style_normal :: nat where "style_normal = 1"

definition style_add :: nat where "style_add = 2"

definition style_delete :: nat where "style_delete = 3"

definition all_style_colours :: "(nat \<times> string \<times> string) list" where
  "all_style_colours =
     [(style_header, ''#00cc00'', ''#ffffff''),
      (style_normal, ''#000000'', ''#ffffff''),
      (style_add, ''#DC143C'', ''#ffffff''),
      (style_delete, ''#1919c0'', ''#ffffff'')]"

datatype cursor_pos = AtStart | AtEnd

text \<open>
  The widget: the table of formats (foreground and background colour per style), the
  text written so far as a list of runs with their format, and the text cursor.
\<close>

record WbDiffView =
  all_text_formats :: "(nat, string \<times> string) dict"
  document :: "(string \<times> string \<times> string) list"
  cursor :: cursor_pos

definition WbDiffView_init :: WbDiffView where
  "WbDiffView_init =
     \<lparr> all_text_formats =
         fold (\<lambda>(style, fg_colour, bg_colour) m. AList.update style (fg_colour, bg_colour) m)
           all_style_colours [],
       document = [], cursor = AtStart \<rparr>"

text \<open>
  A method of the widget returns the exception it raised, if any, and the widget as the
  call left it.
\<close>

definition writeStyledText :: "string \<Rightarrow> nat \<Rightarrow> WbDiffView \<Rightarrow> py_error option \<times> WbDiffView" where
  "writeStyledText txt style v =
     (let v1 = v\<lparr> cursor := AtEnd \<rparr> in
      case dict_get (all_text_formats v1) style of
        Inl e \<Rightarrow> (Some e, v1)
      | Inr fmt \<Rightarrow> (None, v1\<lparr> document := document v1 @ [(txt, fmt)] \<rparr>))"

definition ensureStartVisible :: "WbDiffView \<Rightarrow> WbDiffView" where
  "ensureStartVisible v = v\<lparr> cursor := AtStart \<rparr>"

text \<open>\<open>line[0]\<close> raises \<open>IndexError\<close> on the empty string.\<close>

definition first_char :: "string \<Rightarrow> py_error + char" where
  "first_char line = (case line of [] \<Rightarrow> Inl IndexError | c # _ \<Rightarrow> Inr c)"

fun setUnifiedDiffText_loop :: "string list \<Rightarrow> WbDiffView \<Rightarrow> py_error option \<times> WbDiffView" where
  "setUnifiedDiffText_loop [] v = (None, v)"
| "setUnifiedDiffText_loop (line # all_lines) v =
     (case first_char line of
        Inl e \<Rightarrow> (Some e, v)
      | Inr c \<Rightarrow>
          (case writeStyledText (line @ [CHR 0x0A])
                  (if c = CHR ''-'' then style_delete
                   else if c = CHR ''+'' then style_add
                   else if c = CHR '' '' then style_normal
                   else style_header) v of
             (Some e, v') \<Rightarrow> (Some e, v')
           | (None, v') \<Rightarrow> setUnifiedDiffText_loop all_lines v'))"

definition setUnifiedDiffText :: "string list \<Rightarrow> WbDiffView \<Rightarrow> py_error option \<times> WbDiffView" where
  "setUnifiedDiffText all_lines v =
     (case setUnifiedDiffText_loop all_lines v of
        (Some e, v') \<Rightarrow> (Some e, v')
      | (None, v') \<Rightarrow> (None, ensureStartVisible v'))"


text \<open>
  The classification of a line as the claim about \<open>setUnifiedDiffText\<close> words it,
  with the colours that the table \<open>all_style_colours\<close> gives the four styles: a
  first character \<open>-\<close> is the delete style, \<open>+\<close> the add style, a blank the normal
  style, and anything else the header style.
\<close>

definition spec_line_format :: "string \<Rightarrow> string \<times> string" where
  "spec_line_format line =
     (if hd line = CHR ''-'' then (''#1919c0'', ''#ffffff'')
      else if hd line = CHR ''+'' then (''#DC143C'', ''#ffffff'')
      else if hd line = CHR '' '' then (''#000000'', ''#ffffff'')
      else (''#00cc00'', ''#ffffff''))"

text \<open>
  Descending from a node through \<open>all_folders\<close>, one directory component after the
  other, as the claim about the project tree words it; \<open>None\<close> when a component is
  not a folder of the node reached.
\<close>

fun descend :: "GitProjectTreeNode \<Rightarrow> string list \<Rightarrow> GitProjectTreeNode option" where
  "descend node [] = Some node"
| "descend node (d # ds) =
     (case map_of (all_folders node) d of
        None \<Rightarrow> None
      | Some child \<Rightarrow> descend child ds)"

text \<open>
  The paths of the blobs reachable in a tree, nested subtrees included, as the claim
  about a commit without parent words it.  A submodule entry is not a blob.
\<close>

fun blob_paths :: "git_object \<Rightarrow> string list" where
  "blob_paths (Blob p h) = [p]"
| "blob_paths (Submodule p h) = []"
| "blob_paths (Tree p h its) = concat (map blob_paths its)"


section \<open>Properties of \<open>WbGitFileState\<close>\<close>


lemma calculateStaged_fields [simp]:
  "staged_diff (calculateStaged s) = staged_diff s"
  "unstaged_diff (calculateStaged s) = unstaged_diff s"
  "unstaged_abbrev (calculateStaged s) = unstaged_abbrev s"
  "state_calculated (calculateStaged s) = state_calculated s"
  by (cases "staged_diff s"; simp add: calculateStaged_def)+

lemma calculateUnstaged_fields [simp]:
  "staged_diff (calculateUnstaged s) = staged_diff s"
  "unstaged_diff (calculateUnstaged s) = unstaged_diff s"
  "staged_abbrev (calculateUnstaged s) = staged_abbrev s"
  "state_calculated (calculateUnstaged s) = state_calculated s"
  by (cases "unstaged_diff s"; simp add: calculateUnstaged_def)+














lemma addStaged_fields [simp]:
  "state_calculated (addStaged d s) = False"
  "staged_diff (addStaged d s) = Some d"
  "unstaged_diff (addStaged d s) = unstaged_diff s"
  by (simp_all add: addStaged_def)

lemma addUnstaged_fields [simp]:
  "state_calculated (addUnstaged d s) = False"
  "unstaged_diff (addUnstaged d s) = Some d"
  "staged_diff (addUnstaged d s) = staged_diff s"
  by (simp_all add: addUnstaged_def)















section \<open>Helper facts about the diff view\<close>

lemma all_text_formats_init:
  "all_text_formats WbDiffView_init =
     [(0, (''#00cc00'', ''#ffffff'')), (1, (''#000000'', ''#ffffff'')),
      (2, (''#DC143C'', ''#ffffff'')), (3, (''#1919c0'', ''#ffffff''))]"
  by (simp add: WbDiffView_init_def all_style_colours_def style_header_def style_normal_def
      style_add_def style_delete_def)

lemma writeStyledText_line:
  assumes "all_text_formats v = all_text_formats WbDiffView_init"
  shows "\<exists>v'. writeStyledText ((c # cs) @ [CHR 0x0A])
           (if c = CHR ''-'' then style_delete
            else if c = CHR ''+'' then style_add
            else if c = CHR '' '' then style_normal
            else style_header) v = (None, v')
         \<and> document v' = document v @ [((c # cs) @ [CHR 0x0A], spec_line_format (c # cs))]
         \<and> all_text_formats v' = all_text_formats v"
  using assms
  by (simp add: writeStyledText_def dict_get_def all_text_formats_init spec_line_format_def
      style_header_def style_normal_def style_add_def style_delete_def)

lemma setUnifiedDiffText_loop_props:
  "all_text_formats v = all_text_formats WbDiffView_init \<Longrightarrow>
     fst (setUnifiedDiffText_loop all_lines v) = (if [] \<in> set all_lines then Some IndexError else None)
   \<and> document (snd (setUnifiedDiffText_loop all_lines v)) =
       document v @ map (\<lambda>line. (line @ [CHR 0x0A], spec_line_format line))
                      (takeWhile (\<lambda>line. line \<noteq> []) all_lines)"
proof (induction all_lines arbitrary: v)
  case Nil
  then show ?case by simp
next
  case (Cons line all_lines)
  show ?case
  proof (cases line)
    case Nil
    then show ?thesis by (simp add: first_char_def)
  next
    case line: (Cons c cs)
    from writeStyledText_line [OF Cons.prems, of c cs] obtain v' where
      w: "writeStyledText ((c # cs) @ [CHR 0x0A])
           (if c = CHR ''-'' then style_delete
            else if c = CHR ''+'' then style_add
            else if c = CHR '' '' then style_normal
            else style_header) v = (None, v')"
      and d: "document v' = document v @ [((c # cs) @ [CHR 0x0A], spec_line_format (c # cs))]"
      and f: "all_text_formats v' = all_text_formats v" by blast
    have step: "setUnifiedDiffText_loop (line # all_lines) v = setUnifiedDiffText_loop all_lines v'"
      unfolding line setUnifiedDiffText_loop.simps first_char_def list.case sum.case w
      by simp
    from f Cons.prems have "all_text_formats v' = all_text_formats WbDiffView_init" by simp
    from Cons.IH [OF this] d show ?thesis unfolding step by (simp add: line)
  qed
qed

section \<open>Properties of \<open>WbDiffView\<close>\<close>

text \<open>
  Claim C9.  On a widget holding the four formats of the class, \<open>setUnifiedDiffText\<close>
  raises \<open>IndexError\<close> exactly when the list contains an empty string, and what it
  has written by then (or by its end) is one run per line before the first empty string,
  the line with a newline appended, in the format its first character selects: the
  lines from the empty one on are not rendered.
\<close>

theorem setUnifiedDiffText_first_char:
  assumes "all_text_formats v = all_text_formats WbDiffView_init"
  shows "fst (setUnifiedDiffText all_lines v) = (if [] \<in> set all_lines then Some IndexError else None)
       \<and> document (snd (setUnifiedDiffText all_lines v)) =
           document v @ map (\<lambda>line. (line @ [CHR 0x0A], spec_line_format line))
                          (takeWhile (\<lambda>line. line \<noteq> []) all_lines)"
  using setUnifiedDiffText_loop_props [OF assms, of all_lines]
  by (cases "setUnifiedDiffText_loop all_lines v"; cases "fst (setUnifiedDiffText_loop all_lines v)")
     (auto simp: setUnifiedDiffText_def ensureStartVisible_def split: if_splits)

theorem setUnifiedDiffText_first_char_witness:
  "all_text_formats WbDiffView_init = all_text_formats WbDiffView_init
   \<and> fst (setUnifiedDiffText [''+a'', '''', ''-b''] WbDiffView_init) = Some IndexError
   \<and> document (snd (setUnifiedDiffText [''+a'', '''', ''-b''] WbDiffView_init)) =
        [(''+a'' @ [CHR 0x0A], (''#DC143C'', ''#ffffff''))]"
  using setUnifiedDiffText_first_char [of WbDiffView_init "[''+a'', '''', ''-b'']"]
  by (simp add: spec_line_format_def WbDiffView_init_def)

section \<open>Properties of the commit log commands\<close>

text \<open>
  Claim C8.  Both log commands hand the iterator the keyword arguments
  \<open>commitLogKwds limit since until\<close>.  When \<open>since\<close> is \<open>None\<close> these hold no
  \<open>until\<close> key and the commands give the same result whatever \<open>until\<close> is; when
  \<open>since\<close> is given they hold \<open>until\<close> with the argument's value, which is
  \<open>None\<close> when \<open>until\<close> is \<open>None\<close>.
\<close>

theorem until_only_with_since:
  "(since = PyNone \<longrightarrow>
        map_of (commitLogKwds limit since until) ''until'' = None
      \<and> commitLogKwds limit since until = commitLogKwds limit since PyNone
      \<and> cmdCommitLogForRepository iter limit since until = cmdCommitLogForRepository iter limit since PyNone
      \<and> cmdCommitLogForFile iter filename limit since until = cmdCommitLogForFile iter filename limit since PyNone)
   \<and> (since \<noteq> PyNone \<longrightarrow> map_of (commitLogKwds limit since until) ''until'' = Some until)
   \<and> (since \<noteq> PyNone \<longrightarrow> map_of (commitLogKwds limit since PyNone) ''until'' = Some PyNone)
   \<and> cmdCommitLogForRepository iter limit since until =
        addCommitChangeInformation (map GitCommitLogNode_init (iter None (commitLogKwds limit since until)))
   \<and> cmdCommitLogForFile iter filename limit since until =
        addCommitChangeInformation (map GitCommitLogNode_init (iter (Some filename) (commitLogKwds limit since until)))"
  by (simp add: commitLogKwds_def cmdCommitLogForRepository_def cmdCommitLogForFile_def
      AList.update_conv')

theorem until_only_with_since_witness:
  "map_of (commitLogKwds (PyInt 5) PyNone (PyStr ''2016-03-01'')) ''until'' = None
   \<and> map_of (commitLogKwds (PyInt 5) (PyStr ''2016-01-01'') PyNone) ''until'' = Some PyNone"
proof
  from until_only_with_since [of PyNone "PyInt 5" "PyStr ''2016-03-01''" "\<lambda>p k. []" "''f''"]
  show "map_of (commitLogKwds (PyInt 5) PyNone (PyStr ''2016-03-01'')) ''until'' = None"
    by blast
next
  have "PyStr ''2016-01-01'' \<noteq> PyNone" by simp
  with until_only_with_since [of "PyStr ''2016-01-01''" "PyInt 5" PyNone "\<lambda>p k. []" "''f''"]
  show "map_of (commitLogKwds (PyInt 5) (PyStr ''2016-01-01'') PyNone) ''until'' = Some PyNone"
    by blast
qed

section \<open>Looking up file states\<close>

text \<open>
  Claim C10.  \<open>getFileState\<close> raises \<open>KeyError\<close> for a file name that is not a key
  of \<open>all_file_state\<close>.  \<open>getStatusEntry\<close> returns an entry for every name in the
  node's \<open>all_files\<close>, and when the path stored under the name is not a key of
  \<open>all_file_state\<close> the entry is a new \<open>WbGitFileState\<close>: no index entry, no
  diffs, not untracked, and both abbreviated statuses empty.
\<close>

theorem getFileState_getStatusEntry:
  "(filename \<notin> set (dict_keys (all_file_state p)) \<longrightarrow> getFileState p filename = Inl KeyError)
   \<and> (nm \<in> set (dict_keys (all_files node)) \<longrightarrow>
        (\<exists>entry. getStatusEntry p node nm = Inr entry)
      \<and> (\<forall>path. map_of (all_files node) nm = Some path \<and> path \<notin> set (dict_keys (all_file_state p))
            \<longrightarrow> getStatusEntry p node nm = Inr (WbGitFileState_init None)))
   \<and> index_entry (WbGitFileState_init None) = None
   \<and> staged_diff (WbGitFileState_init None) = None
   \<and> unstaged_diff (WbGitFileState_init None) = None
   \<and> \<not> isUntracked (WbGitFileState_init None)
   \<and> fst (getStagedAbbreviatedStatus (WbGitFileState_init None)) = Some ''''
   \<and> fst (getUnstagedAbbreviatedStatus (WbGitFileState_init None)) = Some ''''"
proof -
  have k: "\<And>(d :: (string \<times> 'v) list) k. (k \<in> set (dict_keys d)) = (map_of d k \<noteq> None)"
    by (simp add: dict_keys_def map_of_eq_None_iff)
  show ?thesis
    by (auto simp: k getFileState_def getStatusEntry_def dict_get_def dict_in_def
        WbGitFileState_init_def isUntracked_def getStagedAbbreviatedStatus_def
        getUnstagedAbbreviatedStatus_def calculateState_def calculateStaged_def
        calculateUnstaged_def split: option.splits)
qed

theorem getFileState_getStatusEntry_witness:
  "''b.txt'' \<notin> set (dict_keys (all_file_state (GitProject_init \<lparr> prefs_name = ''wb'', prefs_path = ''/wb'' \<rparr>
        \<lparr> head_commit = ''c0'', entries = [], head_vs_index = [], index_vs_working = [], untracked_files = [] \<rparr>)))
   \<and> getFileState (GitProject_init \<lparr> prefs_name = ''wb'', prefs_path = ''/wb'' \<rparr>
        \<lparr> head_commit = ''c0'', entries = [], head_vs_index = [], index_vs_working = [], untracked_files = [] \<rparr>)
        ''b.txt'' = Inl KeyError
   \<and> ''b.txt'' \<in> set (dict_keys (all_files (GitProjectTreeNode ''wb'' ''.'' [] [(''b.txt'', ''b.txt'')])))
   \<and> getStatusEntry (GitProject_init \<lparr> prefs_name = ''wb'', prefs_path = ''/wb'' \<rparr>
        \<lparr> head_commit = ''c0'', entries = [], head_vs_index = [], index_vs_working = [], untracked_files = [] \<rparr>)
        (GitProjectTreeNode ''wb'' ''.'' [] [(''b.txt'', ''b.txt'')]) ''b.txt''
       = Inr (WbGitFileState_init None)"
  using getFileState_getStatusEntry [of "''b.txt''"
      "GitProject_init \<lparr> prefs_name = ''wb'', prefs_path = ''/wb'' \<rparr>
        \<lparr> head_commit = ''c0'', entries = [], head_vs_index = [], index_vs_working = [], untracked_files = [] \<rparr>"
      "''b.txt''" "GitProjectTreeNode ''wb'' ''.'' [] [(''b.txt'', ''b.txt'')]"]
  by (simp add: GitProject_init_def dict_keys_def)




section \<open>Properties of \<open>GitProject\<close>: flags and refresh\<close>


lemma calculateStatus_frame [simp]:
  "dirty_index (calculateStatus p) = dirty_index p"
  "stale_index (calculateStatus p) = stale_index p"
  "repo (calculateStatus p) = repo p"
  "tree (calculateStatus p) = tree p"
  "prefs_project (calculateStatus p) = prefs_project p"
  by (simp_all add: calculateStatus_def Let_def split_def)

lemma updateTree_frame [simp]:
  "dirty_index (updateTree pth p) = dirty_index p"
  "stale_index (updateTree pth p) = stale_index p"
  "repo (updateTree pth p) = repo p"
  "all_file_state (updateTree pth p) = all_file_state p"
  "prefs_project (updateTree pth p) = prefs_project p"
  by (simp_all add: updateTree_def)

lemma fold_updateTree_frame [simp]:
  "dirty_index (fold updateTree ks p) = dirty_index p"
  "stale_index (fold updateTree ks p) = stale_index p"
  "repo (fold updateTree ks p) = repo p"
  "all_file_state (fold updateTree ks p) = all_file_state p"
  "prefs_project (fold updateTree ks p) = prefs_project p"
  by (induction ks arbitrary: p; simp)+

lemma tree_fold_updateTree:
  "tree (fold updateTree ks p) =
     fold (\<lambda>pth t. updateTree_loop (split CHR ''/'' pth) pth 0 t) ks (tree p)"
  by (induction ks arbitrary: p) (simp_all add: updateTree_def)


lemma updateState_clean:
  "\<not> dirty_index p \<Longrightarrow>
     \<exists>q. updateState p = Inr q \<and> dirty_index q = dirty_index p \<and> stale_index q = stale_index p
        \<and> repo q = repo p"
  by (simp add: updateState_def Let_def)











section \<open>The project tree built by \<open>updateState\<close>\<close>


lemma split_nonempty: "split c s \<noteq> []"
  by (subst split.simps) (simp split: list.splits)

lemma join_Cons: "ys \<noteq> [] \<Longrightarrow> join sep (x # ys) = x @ sep @ join sep ys"
  by (cases ys) simp_all

lemma dropWhile_hd: "dropWhile (\<lambda>x. x \<noteq> c) s = x # rest \<Longrightarrow> x = c"
  using hd_dropWhile [of "\<lambda>x. x \<noteq> c" s] by force

lemma join_split: "join [c] (split c s) = s"
proof (induction c s rule: split.induct)
  case (1 c s)
  show ?case
  proof (cases "dropWhile (\<lambda>x. x \<noteq> c) s")
    case Nil
    show ?thesis by (subst split.simps) (simp only: Nil list.case join.simps)
  next
    case (Cons x rest)
    then have x: "x = c" by (rule dropWhile_hd)
    have "join [c] (split c s) = join [c] (takeWhile (\<lambda>x. x \<noteq> c) s # split c rest)"
      by (subst split.simps) (simp add: Cons)
    also have "\<dots> = takeWhile (\<lambda>x. x \<noteq> c) s @ [c] @ join [c] (split c rest)"
      by (rule join_Cons) (rule split_nonempty)
    also have "\<dots> = takeWhile (\<lambda>x. x \<noteq> c) s @ [c] @ rest"
      using "1.IH" [OF Cons] by simp
    also have "\<dots> = takeWhile (\<lambda>x. x \<noteq> c) s @ dropWhile (\<lambda>x. x \<noteq> c) s"
      by (simp add: Cons x)
    finally show ?thesis by simp
  qed
qed

lemma split_inject: "split c s = split c t \<Longrightarrow> s = t"
  using join_split [of c s] join_split [of c t] by simp


lemma set_folder_sel [simp]:
  "name (set_folder k child node) = name node"
  "relativePath (set_folder k child node) = relativePath node"
  "all_files (set_folder k child node) = all_files node"
  "map_of (all_folders (set_folder k child node)) = (map_of (all_folders node))(k \<mapsto> child)"
  by (simp_all add: set_folder_def update_conv')

lemma set_file_sel [simp]:
  "name (set_file k v node) = name node"
  "relativePath (set_file k v node) = relativePath node"
  "all_folders (set_file k v node) = all_folders node"
  "map_of (all_files (set_file k v node)) = (map_of (all_files node))(k \<mapsto> v)"
  by (simp_all add: set_file_def update_conv')

lemma init_sel [simp]:
  "name (GitProjectTreeNode_init nm p) = nm"
  "relativePath (GitProjectTreeNode_init nm p) = p"
  "all_folders (GitProjectTreeNode_init nm p) = []"
  "all_files (GitProjectTreeNode_init nm p) = []"
  by (simp_all add: GitProjectTreeNode_init_def)

declare updateTree_loop.simps [simp del] split.simps [simp del]

lemma loop_step:
  "depth < length parts - 1 \<Longrightarrow>
     updateTree_loop parts pth depth node =
       set_folder (parts ! depth)
         (updateTree_loop parts pth (Suc depth)
            (case map_of (all_folders node) (parts ! depth) of
               Some child \<Rightarrow> child
             | None \<Rightarrow> GitProjectTreeNode_init (parts ! depth) (join ''/'' (take (depth + 1) parts))))
         node"
  by (subst updateTree_loop.simps) (simp split: option.splits)

lemma loop_last:
  "\<not> depth < length parts - 1 \<Longrightarrow>
     updateTree_loop parts pth depth node = set_file (last parts) pth node"
  by (subst updateTree_loop.simps) simp

lemma loop_keeps_node:
  "name (updateTree_loop parts pth depth node) = name node
   \<and> relativePath (updateTree_loop parts pth depth node) = relativePath node"
  by (cases "depth < length parts - 1") (simp_all add: loop_step loop_last)

lemma butlast_drop_step:
  "depth < length parts - 1 \<Longrightarrow>
     butlast (drop depth parts) = parts ! depth # butlast (drop (Suc depth) parts)"
proof -
  assume d: "depth < length parts - 1"
  then have "drop depth parts = parts ! depth # drop (Suc depth) parts"
    by (simp add: Cons_nth_drop_Suc)
  moreover from d have "drop (Suc depth) parts \<noteq> []" by simp
  ultimately show ?thesis by simp
qed

lemma butlast_drop_last:
  "depth < length parts \<Longrightarrow> \<not> depth < length parts - 1 \<Longrightarrow> butlast (drop depth parts) = []"
  by (simp add: butlast_conv_take)

text \<open>The file is placed.\<close>

lemma loop_places_file:
  "depth < length parts \<Longrightarrow>
     \<exists>n. descend (updateTree_loop parts pth depth node) (butlast (drop depth parts)) = Some n
        \<and> map_of (all_files n) (last parts) = Some pth"
proof (induction parts pth depth node rule: updateTree_loop.induct)
  case (1 parts pth depth node)
  show ?case
  proof (cases "depth < length parts - 1")
    case True
    let ?child = "case map_of (all_folders node) (parts ! depth) of
               Some child \<Rightarrow> child
             | None \<Rightarrow> GitProjectTreeNode_init (parts ! depth) (join ''/'' (take (depth + 1) parts))"
    from True have sd: "Suc depth < length parts" by simp
    have "\<exists>n. descend (updateTree_loop parts pth (Suc depth) ?child) (butlast (drop (Suc depth) parts)) = Some n
        \<and> map_of (all_files n) (last parts) = Some pth"
    proof (cases "map_of (all_folders node) (parts ! depth)")
      case None
      with "1.IH"(1) [OF True None sd] show ?thesis by simp
    next
      case (Some child)
      with "1.IH"(2) [OF True Some sd] show ?thesis by simp
    qed
    then show ?thesis by (simp add: loop_step [OF True] butlast_drop_step [OF True])
  next
    case False
    with "1.prems" show ?thesis by (simp add: loop_last butlast_drop_last)
  qed
qed

text \<open>What was reachable stays reachable, with the same files except the one placed.\<close>

lemma loop_preserves:
  "depth < length parts \<Longrightarrow> descend node comps = Some n \<Longrightarrow>
     \<exists>n'. descend (updateTree_loop parts pth depth node) comps = Some n'
         \<and> relativePath n' = relativePath n
         \<and> (\<forall>f. comps \<noteq> butlast (drop depth parts) \<or> f \<noteq> last parts
               \<longrightarrow> map_of (all_files n') f = map_of (all_files n) f)"
proof (induction parts pth depth node arbitrary: comps n rule: updateTree_loop.induct)
  case (1 parts pth depth node)
  show ?case
  proof (cases "depth < length parts - 1")
    case True
    let ?k = "parts ! depth"
    let ?child = "case map_of (all_folders node) ?k of
               Some child \<Rightarrow> child
             | None \<Rightarrow> GitProjectTreeNode_init ?k (join ''/'' (take (depth + 1) parts))"
    from True have sd: "Suc depth < length parts" by simp
    show ?thesis
    proof (cases comps)
      case Nil
      with "1.prems" show ?thesis
        by (simp add: loop_step [OF True] butlast_drop_step [OF True])
    next
      case (Cons c cs)
      show ?thesis
      proof (cases "c = ?k")
        case False
        with "1.prems" Cons show ?thesis
          by (simp add: loop_step [OF True] butlast_drop_step [OF True])
      next
        case ck: True
        from "1.prems"(2) Cons ck obtain child where
          ch: "map_of (all_folders node) ?k = Some child" and dc: "descend child cs = Some n"
          by (auto split: option.splits)
        from "1.IH"(2) [OF True ch sd dc] ch Cons ck show ?thesis
          by (simp add: loop_step [OF True] butlast_drop_step [OF True])
      qed
    qed
  next
    case False
    show ?thesis
    proof (cases comps)
      case Nil
      with "1.prems" False show ?thesis by (simp add: loop_last butlast_drop_last)
    next
      case (Cons c cs)
      with "1.prems" False show ?thesis by (simp add: loop_last butlast_drop_last)
    qed
  qed
qed

text \<open>Every node below carries the join of the components that lead to it.\<close>

lemma loop_relativePath:
  "depth < length parts \<Longrightarrow>
   (\<And>comps n. comps \<noteq> [] \<Longrightarrow> descend node comps = Some n
        \<Longrightarrow> relativePath n = join ''/'' (take depth parts @ comps)) \<Longrightarrow>
   comps \<noteq> [] \<Longrightarrow> descend (updateTree_loop parts pth depth node) comps = Some n \<Longrightarrow>
   relativePath n = join ''/'' (take depth parts @ comps)"
proof (induction parts pth depth node arbitrary: comps n rule: updateTree_loop.induct)
  case (1 parts pth depth node)
  show ?case
  proof (cases "depth < length parts - 1")
    case True
    let ?k = "parts ! depth"
    let ?new = "GitProjectTreeNode_init ?k (join ''/'' (take (depth + 1) parts))"
    let ?child = "case map_of (all_folders node) ?k of Some child \<Rightarrow> child | None \<Rightarrow> ?new"
    from True have sd: "Suc depth < length parts" and d: "depth < length parts" by simp_all
    have tk: "take (Suc depth) parts = take depth parts @ [?k]"
      using d by (simp add: take_Suc_conv_app_nth)
    from "1.prems"(3) obtain c cs where comps: "comps = c # cs" by (cases comps) auto
    show ?thesis
    proof (cases "c = ?k")
      case False
      with "1.prems"(4) comps have "descend node comps = Some n"
        by (simp add: loop_step [OF True])
      with "1.prems"(2,3) show ?thesis by blast
    next
      case ck: True
      from "1.prems"(4) comps ck
      have dn: "descend (updateTree_loop parts pth (Suc depth) ?child) cs = Some n"
        by (simp add: loop_step [OF True])
      have below: "relativePath m = join ''/'' (take (Suc depth) parts @ xs)"
        if "xs \<noteq> []" and "descend ?child xs = Some m" for xs m
      proof (cases "map_of (all_folders node) ?k")
        case None
        with that show ?thesis by (cases xs) simp_all
      next
        case (Some child)
        with that have "descend node (?k # xs) = Some m" by simp
        with "1.prems"(2) [of "?k # xs" m] show ?thesis by (simp add: tk)
      qed
      have here: "relativePath ?child = join ''/'' (take (Suc depth) parts)"
      proof (cases "map_of (all_folders node) ?k")
        case None
        then show ?thesis by simp
      next
        case (Some child)
        then have "descend node [?k] = Some child" by simp
        with "1.prems"(2) [of "[?k]" child] Some show ?thesis by (simp add: tk)
      qed
      show ?thesis
      proof (cases cs)
        case Nil
        with dn have "n = updateTree_loop parts pth (Suc depth) ?child" by simp
        with here loop_keeps_node [of parts pth "Suc depth" ?child] comps ck Nil show ?thesis
          by (simp add: tk)
      next
        case (Cons x xs)
        then have ne: "cs \<noteq> []" by simp
        have "relativePath n = join ''/'' (take (Suc depth) parts @ cs)"
        proof (cases "map_of (all_folders node) ?k")
          case None
          from "1.IH"(1) [OF True None sd _ ne] below dn None show ?thesis by simp
        next
          case (Some child)
          from "1.IH"(2) [OF True Some sd _ ne] below dn Some show ?thesis by simp
        qed
        with comps ck show ?thesis by (simp add: tk)
      qed
    qed
  next
    case False
    with "1.prems"(3,4) have "descend node comps = Some n"
      by (cases comps) (simp_all add: loop_last)
    with "1.prems"(2,3) show ?thesis by blast
  qed
qed


lemma descend_prefix:
  "descend t (xs @ ys) = Some n \<Longrightarrow> \<exists>m. descend t xs = Some m"
  by (induction xs arbitrary: t) (auto split: option.splits)

lemma ins_places:
  "\<exists>n. descend (updateTree_loop (split c p) p 0 t) (butlast (split c p)) = Some n
       \<and> map_of (all_files n) (last (split c p)) = Some p"
  using loop_places_file [of 0 "split c p" p t] split_nonempty [of c p] by simp

lemma ins_preserves_file:
  assumes "p' \<noteq> p"
    and "descend t (butlast (split c p)) = Some n"
    and "map_of (all_files n) (last (split c p)) = Some p"
  shows "\<exists>n'. descend (updateTree_loop (split c p') p' 0 t) (butlast (split c p)) = Some n'
           \<and> map_of (all_files n') (last (split c p)) = Some p"
proof -
  have "butlast (split c p) \<noteq> butlast (split c p') \<or> last (split c p) \<noteq> last (split c p')"
  proof (rule ccontr)
    assume "\<not> ?thesis"
    then have "butlast (split c p) @ [last (split c p)] = butlast (split c p') @ [last (split c p')]"
      by simp
    then have "split c p = split c p'"
      by (simp only: append_butlast_last_id [OF split_nonempty])
    with assms(1) show False by (auto dest: split_inject)
  qed
  with loop_preserves [of 0 "split c p'" t "butlast (split c p)" n p'] assms(2,3)
    split_nonempty [of c p']
  show ?thesis by auto
qed

lemma ins_relativePath:
  assumes "\<And>comps n. comps \<noteq> [] \<Longrightarrow> descend t comps = Some n \<Longrightarrow> relativePath n = join ''/'' comps"
    and "comps \<noteq> []" and "descend (updateTree_loop (split c p) p 0 t) comps = Some n"
  shows "relativePath n = join ''/'' comps"
  using loop_relativePath [of 0 "split c p" t comps p n] assms split_nonempty [of c p] by simp

lemma fold_ins_relativePath:
  "(\<And>comps n. comps \<noteq> [] \<Longrightarrow> descend t comps = Some n \<Longrightarrow> relativePath n = join ''/'' comps) \<Longrightarrow>
   comps \<noteq> [] \<Longrightarrow>
   descend (fold (\<lambda>pth t. updateTree_loop (split c pth) pth 0 t) ks t) comps = Some n \<Longrightarrow>
   relativePath n = join ''/'' comps"
proof (induction ks arbitrary: t comps n)
  case Nil
  then show ?case by simp
next
  case (Cons k ks)
  have "\<And>comps n. comps \<noteq> [] \<Longrightarrow> descend (updateTree_loop (split c k) k 0 t) comps = Some n
          \<Longrightarrow> relativePath n = join ''/'' comps"
    using Cons.prems(1) by (rule ins_relativePath)
  from Cons.IH [OF this Cons.prems(2)] Cons.prems(3) show ?case by simp
qed

lemma fold_ins_keeps_file:
  "descend t (butlast (split c p)) = Some n \<Longrightarrow> map_of (all_files n) (last (split c p)) = Some p \<Longrightarrow>
   \<exists>n'. descend (fold (\<lambda>pth t. updateTree_loop (split c pth) pth 0 t) ks t) (butlast (split c p)) = Some n'
       \<and> map_of (all_files n') (last (split c p)) = Some p"
proof (induction ks arbitrary: t n)
  case Nil
  then show ?case by simp
next
  case (Cons k ks)
  have "\<exists>n'. descend (updateTree_loop (split c k) k 0 t) (butlast (split c p)) = Some n'
           \<and> map_of (all_files n') (last (split c p)) = Some p"
  proof (cases "k = p")
    case True
    then show ?thesis using ins_places [of c p t] by simp
  next
    case False
    then show ?thesis using Cons.prems by (rule ins_preserves_file)
  qed
  then obtain n' where "descend (updateTree_loop (split c k) k 0 t) (butlast (split c p)) = Some n'"
    and "map_of (all_files n') (last (split c p)) = Some p" by blast
  from Cons.IH [OF this] show ?case by simp
qed

lemma fold_ins_places:
  "p \<in> set ks \<Longrightarrow>
   \<exists>n. descend (fold (\<lambda>pth t. updateTree_loop (split c pth) pth 0 t) ks t) (butlast (split c p)) = Some n
       \<and> map_of (all_files n) (last (split c p)) = Some p"
proof (induction ks arbitrary: t)
  case Nil
  then show ?case by simp
next
  case (Cons k ks)
  show ?case
  proof (cases "k = p")
    case True
    from ins_places [of c p t] obtain n where
      "descend (updateTree_loop (split c p) p 0 t) (butlast (split c p)) = Some n"
      and "map_of (all_files n) (last (split c p)) = Some p" by blast
    from fold_ins_keeps_file [OF this, of ks] True show ?thesis by simp
  next
    case False
    with Cons.prems have "p \<in> set ks" by simp
    from Cons.IH [OF this] show ?thesis by simp
  qed
qed

text \<open>
  Claim C4.  After \<open>updateState\<close> has returned, take any key of the status map and
  split it at \<open>/\<close>.  Descending from the root of the tree through the folders named
  by all components but the last reaches a node whose \<open>all_files\<close> maps the last
  component to the whole key, and the node reached after the first \<open>k\<close> components
  (\<open>k\<close> at least one) has the join of these components as its relative path.  The
  root itself carries \<open>.\<close>.
\<close>

theorem updateState_tree_matches_status:
  assumes "updateState p = Inr q" and "pth \<in> set (dict_keys (all_file_state q))"
  shows "\<exists>node. descend (tree q) (butlast (split CHR ''/'' pth)) = Some node
           \<and> map_of (all_files node) (last (split CHR ''/'' pth)) = Some pth
           \<and> (\<forall>k. 0 < k \<and> k < length (split CHR ''/'' pth) \<longrightarrow>
                 (\<exists>n. descend (tree q) (take k (split CHR ''/'' pth)) = Some n
                     \<and> relativePath n = join ''/'' (take k (split CHR ''/'' pth))))"
proof -
  let ?root = "GitProjectTreeNode_init (prefs_name (prefs_project p)) ''.''"
  let ?p2 = "calculateStatus (p\<lparr> tree := ?root \<rparr>)"
  let ?ks = "dict_keys (all_file_state ?p2)"
  let ?parts = "split CHR ''/'' pth"
  let ?ins = "\<lambda>pth t. updateTree_loop (split CHR ''/'' pth) pth 0 t"
  from assms(1) have q: "q = fold updateTree ?ks ?p2"
    by (simp add: updateState_def Let_def split: if_splits)
  have fs: "all_file_state q = all_file_state ?p2"
    unfolding q by simp
  have tr: "tree q = fold ?ins ?ks ?root"
    unfolding q by (simp add: tree_fold_updateTree)
  from assms(2) fs have "pth \<in> set ?ks" by simp
  from fold_ins_places [OF this, of "CHR ''/''" ?root] obtain node where
    d: "descend (tree q) (butlast ?parts) = Some node"
    and f: "map_of (all_files node) (last ?parts) = Some pth"
    unfolding tr by blast
  have inter: "\<exists>n. descend (tree q) (take k ?parts) = Some n
                  \<and> relativePath n = join ''/'' (take k ?parts)"
    if k: "0 < k \<and> k < length ?parts" for k
  proof -
    from k have "take k (butlast ?parts) = take k ?parts" by (simp add: take_butlast)
    then have "butlast ?parts = take k ?parts @ drop k (butlast ?parts)"
      using append_take_drop_id [of k "butlast ?parts"] by simp
    with d descend_prefix [of "tree q" "take k ?parts" "drop k (butlast ?parts)" node]
    obtain n where n: "descend (tree q) (take k ?parts) = Some n" by auto
    from k have ne: "take k ?parts \<noteq> []" by auto
    have "relativePath n = join ''/'' (take k ?parts)"
    proof (rule fold_ins_relativePath [of ?root _ "CHR ''/''" ?ks])
      show "relativePath m = join ''/'' comps"
        if "comps \<noteq> []" and "descend ?root comps = Some m" for comps m
        using that by (cases comps) simp_all
      show "take k ?parts \<noteq> []" by (rule ne)
      show "descend (fold ?ins ?ks ?root) (take k ?parts) = Some n" using n by (simp only: tr)
    qed
    with n show ?thesis by blast
  qed
  from d f inter show ?thesis by blast
qed

theorem updateState_tree_matches_status_witness:
  "\<exists>q. updateState (GitProject_init \<lparr> prefs_name = ''wb'', prefs_path = ''/wb'' \<rparr>
           \<lparr> head_commit = ''c0'', entries = [\<lparr> entry_path = ''src/git/a.py'', entry_hexsha = ''1f'' \<rparr>],
             head_vs_index = [], index_vs_working = [], untracked_files = [''notes.txt''] \<rparr>) = Inr q
     \<and> ''src/git/a.py'' \<in> set (dict_keys (all_file_state q))
     \<and> (\<exists>node. descend (tree q) [''src'', ''git''] = Some node
           \<and> map_of (all_files node) ''a.py'' = Some ''src/git/a.py''
           \<and> (\<exists>n. descend (tree q) [''src''] = Some n \<and> relativePath n = ''src'')
           \<and> (\<exists>n. descend (tree q) [''src'', ''git''] = Some n \<and> relativePath n = ''src/git''))"
proof -
  let ?p = "GitProject_init \<lparr> prefs_name = ''wb'', prefs_path = ''/wb'' \<rparr>
           \<lparr> head_commit = ''c0'', entries = [\<lparr> entry_path = ''src/git/a.py'', entry_hexsha = ''1f'' \<rparr>],
             head_vs_index = [], index_vs_working = [], untracked_files = [''notes.txt''] \<rparr>"
  have sp: "split CHR ''/'' ''src/git/a.py'' = [''src'', ''git'', ''a.py'']"
    by code_simp
  have "\<not> dirty_index ?p" by (simp add: GitProject_init_def)
  then obtain q where u: "updateState ?p = Inr q" and r: "repo q = repo ?p"
    using updateState_clean [of ?p] by blast
  have k: "''src/git/a.py'' \<in> set (dict_keys (all_file_state q))"
    using u by (auto simp: updateState_def Let_def GitProject_init_def calculateStatus_def
        dict_keys_def ensure_state_def dict_in_def split: if_splits)
  from updateState_tree_matches_status [OF u k] obtain node where
    d: "descend (tree q) [''src'', ''git''] = Some node"
    and f: "map_of (all_files node) ''a.py'' = Some ''src/git/a.py''"
    and i: "\<forall>k. 0 < k \<and> k < 3 \<longrightarrow>
                 (\<exists>n. descend (tree q) (take k [''src'', ''git'', ''a.py'']) = Some n
                     \<and> relativePath n = join ''/'' (take k [''src'', ''git'', ''a.py'']))"
    unfolding sp by auto
  from i [rule_format, of 1] have i1: "\<exists>n. descend (tree q) [''src''] = Some n \<and> relativePath n = ''src''"
    by simp
  from i [rule_format, of 2] have i2: "\<exists>n. descend (tree q) [''src'', ''git''] = Some n \<and> relativePath n = ''src/git''"
    by (simp add: numeral_2_eq_2)
  from u k d f i1 i2 show ?thesis by blast
qed




section \<open>The change list of a commit log node\<close>


lemma keys_update: "set (dict_keys (AList.update k v d)) = insert k (set (dict_keys d))"
  using dom_update [of k v d] by (simp add: dict_keys_def)

lemma keys_fold_blobs:
  "set (dict_keys (fold (\<lambda>blob d. if obj_type blob = ''blob''
                                    then AList.update (path blob) (hexsha blob) d else d) its d))
     = set (dict_keys d) \<union> {path b | b. b \<in> set its \<and> obj_type b = ''blob''}"
  by (induction its arbitrary: d) (auto simp: keys_update)

lemma keys_fold_trees:
  "(\<And>x d. x \<in> set xs \<Longrightarrow> set (dict_keys (f x d)) = set (dict_keys d) \<union> g x) \<Longrightarrow>
     set (dict_keys (fold f xs d)) = set (dict_keys d) \<union> \<Union> (g ` set xs)"
proof (induction xs arbitrary: d)
  case Nil
  then show ?case by simp
next
  case (Cons x xs)
  have "set (dict_keys (fold f xs (f x d))) = set (dict_keys (f x d)) \<union> \<Union> (g ` set xs)"
    by (rule Cons.IH) (simp add: Cons.prems)
  moreover have "set (dict_keys (f x d)) = set (dict_keys d) \<union> g x"
    by (rule Cons.prems) simp
  ultimately show ?case by auto
qed

lemma blob_paths_items:
  "{path b | b. b \<in> set its \<and> obj_type b = ''blob''} \<union> \<Union> ((\<lambda>t. set (blob_paths t)) ` set (trees its))
     = \<Union> ((\<lambda>i. set (blob_paths i)) ` set its)"
proof (induction its)
  case Nil
  then show ?case by (simp add: trees_def)
next
  case (Cons i its)
  have "{path b | b. b \<in> set (i # its) \<and> obj_type b = ''blob''}
          = (if obj_type i = ''blob'' then {path i} else {}) \<union> {path b | b. b \<in> set its \<and> obj_type b = ''blob''}"
    by auto
  moreover have "\<Union> ((\<lambda>t. set (blob_paths t)) ` set (trees (i # its)))
          = (if obj_type i = ''tree'' then set (blob_paths i) else {})
            \<union> \<Union> ((\<lambda>t. set (blob_paths t)) ` set (trees its))"
    by (simp add: trees_def)
  moreover have "(if obj_type i = ''blob'' then {path i} else {})
            \<union> (if obj_type i = ''tree'' then set (blob_paths i) else {}) = set (blob_paths i)"
    by (cases i) simp_all
  ultimately show ?case using Cons.IH by auto
qed

lemma treeToDict_keys:
  "obj_type t = ''tree'' \<Longrightarrow>
     set (dict_keys (treeToDict t d)) = set (dict_keys d) \<union> set (blob_paths t)"
proof (induction t d rule: treeToDict.induct)
  case (1 p h its all_entries)
  let ?d = "fold (\<lambda>blob d. if obj_type blob = ''blob''
                            then AList.update (path blob) (hexsha blob) d else d) its all_entries"
  have "set (dict_keys (fold treeToDict (trees its) ?d))
          = set (dict_keys ?d) \<union> \<Union> ((\<lambda>t. set (blob_paths t)) ` set (trees its))"
  proof (rule keys_fold_trees)
    fix x d assume x: "x \<in> set (trees its)"
    then have "obj_type x = ''tree''" by (simp add: trees_def)
    with x show "set (dict_keys (treeToDict x d)) = set (dict_keys d) \<union> set (blob_paths x)"
      by (rule "1.IH")
  qed
  also have "\<dots> = set (dict_keys all_entries)
                \<union> ({path b | b. b \<in> set its \<and> obj_type b = ''blob''}
                   \<union> \<Union> ((\<lambda>t. set (blob_paths t)) ` set (trees its)))"
    by (simp only: keys_fold_blobs Un_assoc)
  also have "\<dots> = set (dict_keys all_entries) \<union> \<Union> ((\<lambda>i. set (blob_paths i)) ` set its)"
    by (simp only: blob_paths_items)
  finally show ?case by simp
qed simp_all

lemma distinct_keys_update:
  "distinct (dict_keys d) \<Longrightarrow> distinct (dict_keys (AList.update k v d))"
  by (simp add: dict_keys_def distinct_update)

lemma distinct_fold:
  "(\<And>x d. x \<in> set xs \<Longrightarrow> distinct (dict_keys d) \<Longrightarrow> distinct (dict_keys (f x d))) \<Longrightarrow>
     distinct (dict_keys d) \<Longrightarrow> distinct (dict_keys (fold f xs d))"
  by (induction xs arbitrary: d) simp_all

lemma treeToDict_distinct:
  "obj_type t = ''tree'' \<Longrightarrow> distinct (dict_keys d) \<Longrightarrow> distinct (dict_keys (treeToDict t d))"
proof (induction t d rule: treeToDict.induct)
  case (1 p h its all_entries)
  let ?d = "fold (\<lambda>blob d. if obj_type blob = ''blob''
                            then AList.update (path blob) (hexsha blob) d else d) its all_entries"
  have "distinct (dict_keys ?d)"
    by (rule distinct_fold) (simp_all add: distinct_keys_update "1.prems")
  moreover have "distinct (dict_keys (treeToDict x d))"
    if "x \<in> set (trees its)" and "distinct (dict_keys d)" for x d
  proof -
    from that(1) have "obj_type x = ''tree''" by (simp add: trees_def)
    from "1.IH" [OF that(1) this that(2)] show ?thesis .
  qed
  ultimately have "distinct (dict_keys (fold treeToDict (trees its) ?d))"
    by (rule distinct_fold [rotated])
  then show ?case by simp
qed simp_all

text \<open>
  Claim C6.  For a commit without parents the change computation returns, and the change
  list of the node is, as a set, one entry \<open>('A', path, '')\<close> for every blob path
  reachable in the commit's tree, nested subtrees included, and nothing else: no
  deletion, rename or modification.  No entry is listed twice.
\<close>

theorem root_commit_all_added:
  assumes "parents c = []" and "obj_type (commit_tree c) = ''tree''"
  shows "\<exists>node'. addCommitChangeInformation_body (GitCommitLogNode_init c) = Inr node'
           \<and> set (commitFileChanges node') = (\<lambda>pth. (''A'', pth, '''')) ` set (blob_paths (commit_tree c))
           \<and> distinct (commitFileChanges node')"
proof -
  let ?keys = "dict_keys (treeToDict (commit_tree c) [])"
  have b: "addCommitChangeInformation_body (GitCommitLogNode_init c)
             = Inr (addChanges ?keys [] [] [] (GitCommitLogNode_init c))"
    using assms(1)
    by (simp add: addCommitChangeInformation_body_def commitPreviousTree_def commitTree_def
        GitCommitLogNode_init_def Let_def)
  have ch: "commitFileChanges (addChanges ?keys [] [] [] (GitCommitLogNode_init c))
             = map (\<lambda>nm. (''A'', nm, '''')) ?keys"
    by (simp add: commitFileChanges_def addChanges_def GitCommitLogNode_init_def)
  have k: "set ?keys = set (blob_paths (commit_tree c))"
    using treeToDict_keys [OF assms(2), of "[]"] by (simp add: dict_keys_def)
  have d: "distinct ?keys"
    using treeToDict_distinct [OF assms(2), of "[]"] by (simp add: dict_keys_def)
  have "distinct (map (\<lambda>nm. (''A'', nm, '''')) ?keys)"
    using d by (simp add: distinct_map inj_on_def)
  with b ch k show ?thesis by simp
qed

theorem root_commit_all_added_witness:
  "parents (Commit ''c1'' (Tree '''' ''t1''
       [Blob ''a.txt'' ''h1'', Submodule ''ext'' ''c9'',
        Tree ''d'' ''t2'' [Blob ''d/x.py'' ''h3'', Tree ''d/e'' ''t3'' [Blob ''d/e/y.py'' ''h1'']]]) []) = []
   \<and> (\<exists>node'. addCommitChangeInformation_body (GitCommitLogNode_init (Commit ''c1'' (Tree '''' ''t1''
       [Blob ''a.txt'' ''h1'', Submodule ''ext'' ''c9'',
        Tree ''d'' ''t2'' [Blob ''d/x.py'' ''h3'', Tree ''d/e'' ''t3'' [Blob ''d/e/y.py'' ''h1'']]]) [])) = Inr node'
       \<and> set (commitFileChanges node')
           = {(''A'', ''a.txt'', ''''), (''A'', ''d/x.py'', ''''), (''A'', ''d/e/y.py'', '''')})"
proof -
  let ?c = "Commit ''c1'' (Tree '''' ''t1''
       [Blob ''a.txt'' ''h1'', Submodule ''ext'' ''c9'',
        Tree ''d'' ''t2'' [Blob ''d/x.py'' ''h3'', Tree ''d/e'' ''t3'' [Blob ''d/e/y.py'' ''h1'']]]) []"
  have h1: "parents ?c = []" by simp
  have h2: "obj_type (commit_tree ?c) = ''tree''" by simp
  from root_commit_all_added [OF h1 h2] h1 show ?thesis by auto
qed

lemma set_remove_Inr: "set_remove x s = Inr s' \<Longrightarrow> x \<in> set s \<and> set s' = set s - {x}"
  by (auto simp: set_remove_def split: if_splits)

lemma rename_loop_result:
  "rename_loop names New idn (A, D, R) = Inr (A', D', R') \<Longrightarrow>
     set A' = set A - {n \<in> set names. \<exists>h w. map_of New n = Some h \<and> map_of idn h = Some w}
   \<and> set D' = set D - {w. \<exists>n \<in> set names. \<exists>h. map_of New n = Some h \<and> map_of idn h = Some w}
   \<and> set R' = set R \<union> {(n, w). n \<in> set names \<and> (\<exists>h. map_of New n = Some h \<and> map_of idn h = Some w)}"
proof (induction names arbitrary: A D R)
  case Nil
  then show ?case by simp
next
  case (Cons nm names)
  from Cons.prems obtain h where h: "map_of New nm = Some h"
    by (auto simp: dict_get_def split: option.splits)
  show ?case
  proof (cases "map_of idn h")
    case None
    with Cons.prems h have "rename_loop names New idn (A, D, R) = Inr (A', D', R')"
      by (simp add: dict_get_def dict_in_def)
    from Cons.IH [OF this] h None show ?thesis by auto
  next
    case (Some w')
    with Cons.prems h obtain A1 D1 where
      a: "set_remove nm A = Inr A1" and d: "set_remove w' D = Inr D1"
      and r: "rename_loop names New idn (A1, D1, R @ [(nm, w')]) = Inr (A', D', R')"
      by (auto simp: dict_get_def dict_in_def split: sum.splits)
    from set_remove_Inr [OF a] set_remove_Inr [OF d] Cons.IH [OF r] h Some
    show ?thesis by auto
  qed
qed

lemma fold_modified:
  "set (fold (\<lambda>key m. if P key then set_add key m else m) ks acc) = set acc \<union> {k \<in> set ks. P k}"
  by (induction ks arbitrary: acc) (auto simp: set_add_def)

lemma keys_dom: "set (dict_keys d) = dom (map_of d)"
  by (simp add: dict_keys_def dom_map_of_conv_image_fst)

text \<open>
  For a commit with a first parent: whenever the change computation returns, the change
  list is, as a set, what the rename detection is meant to give.  \<open>New\<close> and
  \<open>Old\<close> are the two tree dictionaries and \<open>Idn\<close> is the table from blob hash to
  old name.  An added path whose hash is not in the table is \<open>'A'\<close>; an added path
  whose hash is in the table is \<open>'R'\<close> with the old name from the table; a deleted
  path is \<open>'D'\<close> unless a rename took it; a path in both trees with two different
  hashes is \<open>'M'\<close>.
\<close>

lemma change_list_when_computed:
  assumes "parents c = cp # cps"
    and "addCommitChangeInformation_body (GitCommitLogNode_init c) = Inr node'"
    and "New = map_of (treeToDict (commit_tree c) [])"
    and "Old = map_of (treeToDict (commit_tree cp) [])"
    and "Idn = map_of (fold (\<lambda>(nm, blob_id) m. AList.update blob_id nm m)
                       (treeToDict (commit_tree cp) []) [])"
  shows "set (commitFileChanges node') =
      {(''A'', n, '''') | n. n \<in> dom New \<and> n \<notin> dom Old \<and> (\<forall>h. New n = Some h \<longrightarrow> Idn h = None)}
    \<union> {(''D'', old, '''') | old. old \<in> dom Old \<and> old \<notin> dom New
           \<and> \<not> (\<exists>n h. n \<in> dom New \<and> n \<notin> dom Old \<and> New n = Some h \<and> Idn h = Some old)}
    \<union> {(''R'', n, old) | n old. n \<in> dom New \<and> n \<notin> dom Old \<and> (\<exists>h. New n = Some h \<and> Idn h = Some old)}
    \<union> {(''M'', k, '''') | k. k \<in> dom New \<and> k \<in> dom Old \<and> New k \<noteq> Old k}"
proof -
  let ?new = "treeToDict (commit_tree c) []"
  let ?old = "treeToDict (commit_tree cp) []"
  let ?idn = "fold (\<lambda>(nm, blob_id) m. AList.update blob_id nm m) ?old []"
  let ?added = "set_minus (dict_keys ?new) (dict_keys ?old)"
  let ?deleted = "set_minus (dict_keys ?old) (dict_keys ?new)"
  let ?modified = "fold (\<lambda>key m. if dict_in key ?old \<and> map_of ?new key \<noteq> map_of ?old key
                                       then set_add key m else m) (dict_keys ?new) []"
  have prev: "commitPreviousTree (GitCommitLogNode_init c) = Some (commit_tree cp)"
    using assms(1) by (simp add: commitPreviousTree_def GitCommitLogNode_init_def)
  have tr: "commitTree (GitCommitLogNode_init c) = commit_tree c"
    by (simp add: commitTree_def GitCommitLogNode_init_def)
  from assms(2) obtain A' D' R' where
    loop: "(if length ?added > 0 then rename_loop ?added ?new ?idn (?added, ?deleted, [])
           else Inr (?added, ?deleted, [])) = Inr (A', D', R')"
    and node': "node' = addChanges A' D' R' ?modified (GitCommitLogNode_init c)"
    by (auto simp: addCommitChangeInformation_body_def prev tr Let_def split: sum.splits)
  have res: "set A' = set ?added - {n \<in> set ?added. \<exists>h w. map_of ?new n = Some h \<and> map_of ?idn h = Some w}
   \<and> set D' = set ?deleted - {w. \<exists>n \<in> set ?added. \<exists>h. map_of ?new n = Some h \<and> map_of ?idn h = Some w}
   \<and> set R' = {(n, w). n \<in> set ?added \<and> (\<exists>h. map_of ?new n = Some h \<and> map_of ?idn h = Some w)}"
  proof (cases "length ?added > 0")
    case True
    with loop have "rename_loop ?added ?new ?idn (?added, ?deleted, []) = Inr (A', D', R')" by simp
    from rename_loop_result [OF this] show ?thesis by simp
  next
    case False
    with loop show ?thesis by auto
  qed
  have added: "set ?added = {n. n \<in> dom New \<and> n \<notin> dom Old}"
    by (auto simp: set_minus_def keys_dom assms(3,4))
  have deleted: "set ?deleted = {n. n \<in> dom Old \<and> n \<notin> dom New}"
    by (auto simp: set_minus_def keys_dom assms(3,4))
  have modified: "set ?modified = {k. k \<in> dom New \<and> k \<in> dom Old \<and> New k \<noteq> Old k}"
    by (auto simp: fold_modified keys_dom dict_in_def assms(3,4))
  have ch: "set (commitFileChanges node') =
      (\<lambda>n. (''A'', n, '''')) ` set A' \<union> (\<lambda>n. (''D'', n, '''')) ` set D'
      \<union> (\<lambda>(n, old). (''R'', n, old)) ` set R' \<union> (\<lambda>n. (''M'', n, '''')) ` set ?modified"
    by (simp add: node' commitFileChanges_def addChanges_def GitCommitLogNode_init_def Un_assoc)
  have idn: "map_of ?idn = Idn" and new: "map_of ?new = New" by (simp_all add: assms(3,5))
  show ?thesis
    unfolding ch modified
    using res unfolding added deleted idn new
    by (auto simp: image_iff)
qed


text \<open>The old name the table gives for a hash is an old path with that hash.\<close>

lemma id_to_name_same_hash:
  "distinct (map fst d) \<Longrightarrow>
   map_of (fold (\<lambda>(nm, blob_id) m. AList.update blob_id nm m) d m0) h = Some old \<Longrightarrow>
   map_of d old = Some h \<or> map_of m0 h = Some old"
proof (induction d arbitrary: m0)
  case Nil
  then show ?case by simp
next
  case (Cons e d)
  obtain nm1 h1 where e: "e = (nm1, h1)" by (cases e)
  from Cons.prems have dist: "distinct (map fst d)" and fresh: "nm1 \<notin> fst ` set d"
    by (simp_all add: e)
  from Cons.prems(2) have "map_of (fold (\<lambda>(nm, blob_id) m. AList.update blob_id nm m) d
                              (AList.update h1 nm1 m0)) h = Some old"
    by (simp add: e)
  from Cons.IH [OF dist this]
  show ?case
  proof
    assume m: "map_of d old = Some h"
    then have "old \<in> fst ` set d" by (metis domI dom_map_of_conv_image_fst)
    with fresh have "old \<noteq> nm1" by auto
    with m show ?thesis by (simp add: e)
  next
    assume "map_of (AList.update h1 nm1 m0) h = Some old"
    then show ?thesis by (auto simp: e update_conv' split: if_splits)
  qed
qed

lemma renamed_from_same_hash:
  assumes "obj_type old_tree = ''tree''"
    and "map_of (fold (\<lambda>(nm, blob_id) m. AList.update blob_id nm m)
                   (treeToDict old_tree []) []) h = Some old"
  shows "map_of (treeToDict old_tree []) old = Some h"
proof -
  have "distinct (map fst (treeToDict old_tree []))"
    using treeToDict_distinct [OF assms(1), of "[]"] by (simp add: dict_keys_def)
  from id_to_name_same_hash [OF this assms(2)] show ?thesis by simp
qed


text \<open>
  Claim C1.  The claim asks that a path present only in the new tree is reported as
  added unless its blob hash is that of a deleted old path.  Here the parent commit
  holds \<open>a.txt\<close> and the commit holds \<open>a.txt\<close> unchanged and a copy of it,
  \<open>b.txt\<close>: nothing was deleted, so \<open>b.txt\<close> is an addition.  The table from
  blob hash to old name is built from all old paths, not from the deleted ones, so the
  loop takes \<open>b.txt\<close> for a rename of \<open>a.txt\<close> and removes \<open>a.txt\<close> from the set
  of deleted paths, where it is not: the computation raises \<open>KeyError\<close> and no change
  list is produced, neither for this node nor by the log command whose iterator yields
  the two commits.
\<close>

theorem copied_file_raises_KeyError:
  "addCommitChangeInformation_body (GitCommitLogNode_init
     (Commit ''c1'' (Tree '''' ''t1'' [Blob ''a.txt'' ''h1'', Blob ''b.txt'' ''h1''])
        [Commit ''c0'' (Tree '''' ''t0'' [Blob ''a.txt'' ''h1'']) []])) = Inl KeyError
   \<and> cmdCommitLogForRepository
        (\<lambda>paths kwds.
           [Commit ''c1'' (Tree '''' ''t1'' [Blob ''a.txt'' ''h1'', Blob ''b.txt'' ''h1''])
              [Commit ''c0'' (Tree '''' ''t0'' [Blob ''a.txt'' ''h1'']) []],
            Commit ''c0'' (Tree '''' ''t0'' [Blob ''a.txt'' ''h1'']) []])
        PyNone PyNone PyNone = Inl KeyError"
  by code_simp


end
